theory Spec2Isabelle
  imports Main "HOL-Library.Sublist"
begin

unbundle bit_operations_syntax

section \<open>The dual camera controller of \<open>dual_cam_capture.py\<close>\<close>

text \<open>
  The controller object is a record of its fields. Every method becomes a function from
  the controller and the history of calls made to the outside (camera driver, OpenCV
  windows and codec, clock, console) to an outcome, the controller as the method left it
  and the extended history. A Python exception is the outcome \<open>Inl\<close>; the fields
  assigned before it was raised keep their new values, as in Python.
\<close>

subsection \<open>Exceptions, frames, the outside world\<close>

datatype exn =
    Exception string string  \<comment> \<open>class name and message of an \<open>Exception\<close> subclass\<close>
  | SystemExit int

definition IndexError :: exn where
  "IndexError = Exception ''IndexError'' ''list index out of range''"

definition ValueError :: "string \<Rightarrow> exn" where
  "ValueError msg = Exception ''ValueError'' msg"

text \<open>
  A frame is the array a camera delivered, or the result of an OpenCV or NumPy call on
  frames; the calls are recorded with their arguments and not interpreted.
\<close>

datatype image =
    Sensor nat nat "nat list"  \<comment> \<open>height, width, data as delivered by \<open>capture_array\<close>\<close>
  | ConvertScaleAbs image int int  \<comment> \<open>\<open>cv2.convertScaleAbs(img, alpha, beta)\<close>\<close>
  | Rectangle image "int \<times> int" "int \<times> int" "nat \<times> nat \<times> nat" int
  | AddWeightedHalf image image  \<comment> \<open>\<open>cv2.addWeighted(a, 0.5, b, 0.5, 0)\<close>\<close>
  | PutText image string "int \<times> int"
  | CvtColorRGB2BGR image
  | HCat image image  \<comment> \<open>two arrays side by side\<close>

fun shape :: "image \<Rightarrow> nat \<times> nat" where
  "shape (Sensor h w d) = (h, w)"
| "shape (ConvertScaleAbs f a b) = shape f"
| "shape (Rectangle f p q col t) = shape f"
| "shape (AddWeightedHalf f g) = shape g"
| "shape (PutText f txt p) = shape f"
| "shape (CvtColorRGB2BGR f) = shape f"
| "shape (HCat f g) = (fst (shape f), snd (shape f) + snd (shape g))"

record config =
  main_size :: "int \<times> int"
  lores_size :: "int \<times> int"
  display :: string

record struct_time =
  tm_year :: nat
  tm_mon :: nat
  tm_mday :: nat
  tm_hour :: nat
  tm_min :: nat
  tm_sec :: nat

text \<open>One call to the outside; the integer of a camera call is the camera's number.\<close>

datatype event =
    PathExists string
  | Makedirs string
  | Picamera2 int
  | CreatePreviewConfiguration int "int \<times> int" "int \<times> int" string
  | Configure int config
  | Start int
  | Stop int
  | CaptureArray int
  | SetControls int string int
  | Strftime string
  | Imwrite string image
  | Imshow string image
  | WaitKey int
  | DestroyAllWindows
  | Print string

text \<open>
  The outside is a parameter: what each call answers, given the calls made so far.
  \<open>fault\<close> says whether a call raises.
\<close>

record env =
  fault :: "event list \<Rightarrow> event \<Rightarrow> exn option"
  path_exists :: "event list \<Rightarrow> string \<Rightarrow> bool"
  sensor :: "event list \<Rightarrow> int \<Rightarrow> image"
  clock :: "event list \<Rightarrow> struct_time"
  imwrite_ok :: "event list \<Rightarrow> string \<Rightarrow> image \<Rightarrow> bool"
  keyboard :: "event list \<Rightarrow> int"

record controller =
  cameras :: "int list"
  active_camera :: int
  preview_active :: bool
  exposure_values :: "int list"
  brightness_values :: "int list"
  resolution_options :: "(int \<times> int) list"
  current_resolution_idx :: int
  save_directory :: string

type_synonym st = "controller \<times> event list"
type_synonym 'a prog = "st \<Rightarrow> (exn + 'a) \<times> st"

definition ret :: "'a \<Rightarrow> 'a prog" where
  "ret x = (\<lambda>s. (Inr x, s))"

definition raise :: "exn \<Rightarrow> 'a prog" where
  "raise e = (\<lambda>s. (Inl e, s))"

definition bnd :: "'a prog \<Rightarrow> ('a \<Rightarrow> 'b prog) \<Rightarrow> 'b prog" where
  "bnd m f = (\<lambda>s. case m s of (Inl e, s') \<Rightarrow> (Inl e, s') | (Inr x, s') \<Rightarrow> f x s')"

definition seq :: "unit prog \<Rightarrow> 'b prog \<Rightarrow> 'b prog" where
  "seq m k = bnd m (\<lambda>_. k)"

definition get :: "(controller \<Rightarrow> 'a) \<Rightarrow> 'a prog" where
  "get fld = (\<lambda>(c, h). (Inr (fld c), (c, h)))"

definition modify :: "(controller \<Rightarrow> controller) \<Rightarrow> unit prog" where
  "modify upd = (\<lambda>(c, h). (Inr (), (upd c, h)))"

definition lift :: "exn + 'a \<Rightarrow> 'a prog" where
  "lift r = (\<lambda>s. (r, s))"

text \<open>A call that returns nothing: it is recorded, and raises if the outside says so.\<close>

definition call :: "env \<Rightarrow> event \<Rightarrow> unit prog" where
  "call E ev = (\<lambda>(c, h).
     case fault E h ev of
       Some e \<Rightarrow> (Inl e, (c, h @ [ev]))
     | None \<Rightarrow> (Inr (), (c, h @ [ev])))"

text \<open>A call that returns a value read from the outside before the call is recorded.\<close>

definition call_val :: "env \<Rightarrow> event \<Rightarrow> (event list \<Rightarrow> 'a) \<Rightarrow> 'a prog" where
  "call_val E ev answer = (\<lambda>(c, h).
     case fault E h ev of
       Some e \<Rightarrow> (Inl e, (c, h @ [ev]))
     | None \<Rightarrow> (Inr (answer h), (c, h @ [ev])))"

definition print :: "string \<Rightarrow> unit prog" where
  "print line = (\<lambda>(c, h). (Inr (), (c, h @ [Print line])))"

subsection \<open>Python values\<close>

text \<open>
  The position a Python index names in a list of \<open>n\<close> elements: an index below
  zero counts from the end, and an index outside \<open>-n .. n-1\<close> names none.
\<close>

definition py_pos :: "nat \<Rightarrow> int \<Rightarrow> nat option" where
  "py_pos n i =
     (if - int n \<le> i \<and> i < 0 then Some (nat (int n + i))
      else if 0 \<le> i \<and> i < int n then Some (nat i)
      else None)"

text \<open>\<open>xs[i]\<close> and \<open>xs[i] = v\<close>; both raise where the index names no position.\<close>

definition py_index :: "'a list \<Rightarrow> int \<Rightarrow> exn + 'a" where
  "py_index xs i =
     (case py_pos (length xs) i of
        None \<Rightarrow> Inl IndexError
      | Some k \<Rightarrow> Inr (xs ! k))"

definition py_store :: "'a list \<Rightarrow> int \<Rightarrow> 'a \<Rightarrow> exn + 'a list" where
  "py_store xs i v =
     (case py_pos (length xs) i of
        None \<Rightarrow> Inl IndexError
      | Some k \<Rightarrow> Inr (xs[k := v]))"

definition digit_char :: "nat \<Rightarrow> char" where
  "digit_char d = ''0123456789'' ! d"

fun str_nat :: "nat \<Rightarrow> string" where
  "str_nat n = (if n < 10 then [digit_char n] else str_nat (n div 10) @ [digit_char (n mod 10)])"

declare str_nat.simps [simp del]

text \<open>\<open>str(i)\<close> of an integer, as an f-string renders it.\<close>

definition str_int :: "int \<Rightarrow> string" where
  "str_int i = (if i < 0 then CHR ''-'' # str_nat (nat (- i)) else str_nat (nat i))"

definition ord :: "char \<Rightarrow> int" where
  "ord ch = of_char ch"

definition pad2 :: "nat \<Rightarrow> string" where
  "pad2 n = (if n < 10 then CHR ''0'' # str_nat n else str_nat n)"

text \<open>\<open>time.strftime(fmt)\<close> for the directives the program uses, on the local time.\<close>

fun strftime :: "string \<Rightarrow> struct_time \<Rightarrow> string" where
  "strftime [] t = []"
| "strftime [ch] t = [ch]"
| "strftime (ch # d # rest) t =
     (if ch = CHR ''%'' then
        (if d = CHR ''Y'' then str_nat (tm_year t) @ strftime rest t
         else if d = CHR ''m'' then pad2 (tm_mon t) @ strftime rest t
         else if d = CHR ''d'' then pad2 (tm_mday t) @ strftime rest t
         else if d = CHR ''H'' then pad2 (tm_hour t) @ strftime rest t
         else if d = CHR ''M'' then pad2 (tm_min t) @ strftime rest t
         else if d = CHR ''S'' then pad2 (tm_sec t) @ strftime rest t
         else ch # d # strftime rest t)
      else ch # strftime (d # rest) t)"

definition time_strftime :: "env \<Rightarrow> string \<Rightarrow> string prog" where
  "time_strftime E fmt = (\<lambda>(c, h). (Inr (strftime fmt (clock E h)), (c, h @ [Strftime fmt])))"

subsection \<open>Reading and writing the controller's lists\<close>

text \<open>\<open>self.fld[i]\<close>.\<close>

definition item :: "(controller \<Rightarrow> 'a list) \<Rightarrow> int \<Rightarrow> 'a prog" where
  "item fld i = (\<lambda>(c, h). (py_index (fld c) i, (c, h)))"

text \<open>\<open>self.exposure_values[i] = v\<close> and \<open>self.brightness_values[i] = v\<close>.\<close>

definition set_exposure_item :: "int \<Rightarrow> int \<Rightarrow> unit prog" where
  "set_exposure_item i v = (\<lambda>(c, h).
     case py_store (exposure_values c) i v of
       Inl e \<Rightarrow> (Inl e, (c, h))
     | Inr xs \<Rightarrow> (Inr (), (c\<lparr>exposure_values := xs\<rparr>, h)))"

definition set_brightness_item :: "int \<Rightarrow> int \<Rightarrow> unit prog" where
  "set_brightness_item i v = (\<lambda>(c, h).
     case py_store (brightness_values c) i v of
       Inl e \<Rightarrow> (Inl e, (c, h))
     | Inr xs \<Rightarrow> (Inr (), (c\<lparr>brightness_values := xs\<rparr>, h)))"

text \<open>\<open>for x in xs: body(x)\<close>; an exception in the body ends the loop.\<close>

primrec for_each :: "'a list \<Rightarrow> ('a \<Rightarrow> unit prog) \<Rightarrow> unit prog" where
  "for_each [] body = ret ()"
| "for_each (x # xs) body = seq (body x) (for_each xs body)"

definition enumerate :: "'a list \<Rightarrow> (int \<times> 'a) list" where
  "enumerate xs = zip (map int [0..<length xs]) xs"

subsection \<open>Exposure and brightness\<close>

definition adjust_exposure :: "env \<Rightarrow> int \<Rightarrow> string \<Rightarrow> unit prog" where
  "adjust_exposure E camera_idx direction =
     (let step = 1 in
      seq (if direction = ''up'' then
             bnd (item exposure_values camera_idx) (\<lambda>old.
             set_exposure_item camera_idx (min 8 (old + step)))
           else
             bnd (item exposure_values camera_idx) (\<lambda>old.
             set_exposure_item camera_idx (max (- 8) (old - step))))
     (bnd (item cameras camera_idx) (\<lambda>cam.
      bnd (item exposure_values camera_idx) (\<lambda>v.
      seq (call E (SetControls cam ''ExposureValue'' v))
     (bnd (item exposure_values camera_idx) (\<lambda>shown.
      print (''Camera '' @ str_int (camera_idx + 1) @ '' exposure compensation: ''
               @ str_int shown)))))))"

definition adjust_brightness :: "env \<Rightarrow> int \<Rightarrow> string \<Rightarrow> unit prog" where
  "adjust_brightness E camera_idx direction =
     (let step = 5 in
      seq (if direction = ''up'' then
             bnd (item brightness_values camera_idx) (\<lambda>old.
             set_brightness_item camera_idx (min 100 (old + step)))
           else
             bnd (item brightness_values camera_idx) (\<lambda>old.
             set_brightness_item camera_idx (max (- 100) (old - step))))
     (bnd (item brightness_values camera_idx) (\<lambda>shown.
      print (''Camera '' @ str_int (camera_idx + 1) @ '' brightness: '' @ str_int shown))))"

subsection \<open>Snapshots\<close>

definition capture_array :: "env \<Rightarrow> int \<Rightarrow> image prog" where
  "capture_array E cam = call_val E (CaptureArray cam) (\<lambda>h. sensor E h cam)"

text \<open>\<open>cv2.imwrite\<close> answers whether the file was written; it may also raise.\<close>

definition imwrite :: "env \<Rightarrow> string \<Rightarrow> image \<Rightarrow> bool prog" where
  "imwrite E filename img = call_val E (Imwrite filename img) (\<lambda>h. imwrite_ok E h filename img)"

definition capture_image :: "env \<Rightarrow> int \<Rightarrow> string prog" where
  "capture_image E camera_idx =
     bnd (time_strftime E ''%Y%m%d_%H%M%S'') (\<lambda>timestamp.
     bnd (get save_directory) (\<lambda>dir.
     let filename = dir @ ''/camera'' @ str_int (camera_idx + 1) @ ''_'' @ timestamp @ ''.jpg'' in
     bnd (item cameras camera_idx) (\<lambda>cam.
     bnd (capture_array E cam) (\<lambda>img.
     bnd (item brightness_values camera_idx) (\<lambda>b.
     bnd (if b \<noteq> 0 then
            bnd (item brightness_values camera_idx) (\<lambda>beta. ret (ConvertScaleAbs img 1 beta))
          else ret img) (\<lambda>img.
     bnd (imwrite E filename img) (\<lambda>written.
     seq (print (''Image saved as '' @ filename))
    (ret filename))))))))"

subsection \<open>Resolution\<close>

definition ZeroDivisionError :: exn where
  "ZeroDivisionError = Exception ''ZeroDivisionError'' ''integer modulo by zero''"

text \<open>
  The first two statements of \<open>change_resolution\<close>: the index moves on and the pair
  it selects is bound to \<open>resolution\<close>.
\<close>

definition cycle_resolution :: "(int \<times> int) prog" where
  "cycle_resolution =
     bnd (get current_resolution_idx) (\<lambda>idx.
     bnd (get resolution_options) (\<lambda>opts.
     if length opts = 0 then raise ZeroDivisionError
     else
       seq (modify (\<lambda>c. c\<lparr>current_resolution_idx := (idx + 1) mod int (length opts)\<rparr>))
      (bnd (get current_resolution_idx) (\<lambda>idx'.
       item resolution_options idx'))))"

definition create_preview_configuration ::
    "env \<Rightarrow> int \<Rightarrow> int \<times> int \<Rightarrow> int \<times> int \<Rightarrow> string \<Rightarrow> config prog" where
  "create_preview_configuration E cam main lores disp =
     call_val E (CreatePreviewConfiguration cam main lores disp)
       (\<lambda>h. \<lparr>main_size = main, lores_size = lores, display = disp\<rparr>)"

definition change_resolution :: "env \<Rightarrow> unit prog" where
  "change_resolution E =
     bnd cycle_resolution (\<lambda>resolution.
     bnd (get cameras) (\<lambda>cams.
     seq (for_each (enumerate cams) (\<lambda>(i, camera).
            seq (call E (Stop camera))
           (bnd (create_preview_configuration E camera resolution (640, 480) ''lores'') (\<lambda>config.
            seq (call E (Configure camera config))
           (call E (Start camera))))))
    (print (''Resolution changed to '' @ str_int (fst resolution) @ ''x''
              @ str_int (snd resolution)))))"

subsection \<open>The overlay of the preview\<close>

definition add_info_overlay :: "env \<Rightarrow> image \<Rightarrow> int \<Rightarrow> image prog" where
  "add_info_overlay E frame camera_idx =
     (let (height, width) = shape frame in
      bnd (time_strftime E ''%Y-%m-%d %H:%M:%S'') (\<lambda>timestamp.
      let resolution = str_nat width @ ''x'' @ str_nat height in
      bnd (get active_camera) (\<lambda>active.
      bnd (item exposure_values camera_idx) (\<lambda>exposure.
      bnd (item brightness_values camera_idx) (\<lambda>brightness.
      let info_text =
            [''Camera '' @ str_int (camera_idx + 1) @ '' ''
               @ (if camera_idx = active then ''(ACTIVE)'' else []),
             ''Time: '' @ timestamp,
             ''Resolution: '' @ resolution,
             ''Exposure: '' @ str_int exposure,
             ''Brightness: '' @ str_int brightness];
          overlay = Rectangle frame (10, 10) (300, 110) (0, 0, 0) (- 1);
          blended = AddWeightedHalf overlay frame;
          labelled = foldl (\<lambda>f (i, txt). PutText f txt (20, 35 + i * 20)) blended
                       (enumerate info_text)
      in ret (if camera_idx = active
              then Rectangle labelled (0, 0) (int width - 1, int height - 1) (0, 255, 0) 2
              else labelled))))))"

subsection \<open>The main loop\<close>

text \<open>The first loop of an iteration: one frame of every camera, processed.\<close>

fun capture_frames :: "env \<Rightarrow> (int \<times> int) list \<Rightarrow> image list \<Rightarrow> image list prog" where
  "capture_frames E [] frames = ret frames"
| "capture_frames E ((i, camera) # rest) frames =
     bnd (capture_array E camera) (\<lambda>frame.
     bnd (item brightness_values i) (\<lambda>b.
     bnd (if b \<noteq> 0 then
            bnd (item brightness_values i) (\<lambda>beta. ret (ConvertScaleAbs frame 1 beta))
          else ret frame) (\<lambda>frame.
     bnd (add_info_overlay E frame i) (\<lambda>frame.
     capture_frames E rest (frames @ [frame])))))"

text \<open>
  \<open>np.hstack\<close> of a list of frames: it raises on the empty list and on frames
  that are not all of the same height.
\<close>

fun hstack :: "image list \<Rightarrow> exn + image" where
  "hstack [] = Inl (ValueError ''need at least one array to concatenate'')"
| "hstack (f # fs) =
     (if list_all (\<lambda>g. fst (shape g) = fst (shape f)) fs then Inr (foldl HCat f fs)
      else Inl (ValueError
        ''all the input array dimensions except for the concatenation axis must match exactly''))"

text \<open>
  The \<open>if\<close>/\<open>elif\<close> chain on the key; the result says whether the loop is left.
\<close>

definition handle_key :: "env \<Rightarrow> int \<Rightarrow> bool prog" where
  "handle_key E key =
     (if key = ord CHR ''q'' then ret True
      else if key = ord CHR ''1'' then
        seq (modify (\<lambda>c. c\<lparr>active_camera := 0\<rparr>))
       (seq (print ''Camera 1 selected'') (ret False))
      else if key = ord CHR ''2'' then
        seq (modify (\<lambda>c. c\<lparr>active_camera := 1\<rparr>))
       (seq (print ''Camera 2 selected'') (ret False))
      else if key = ord CHR ''s'' then
        bnd (get active_camera) (\<lambda>active.
        bnd (capture_image E active) (\<lambda>filename. ret False))
      else if key = ord CHR ''d'' then
        seq (for_each [0, 1] (\<lambda>i. bnd (capture_image E i) (\<lambda>filename. ret ())))
       (ret False)
      else if key = ord CHR ''r'' then
        seq (change_resolution E) (ret False)
      else if key = ord CHR ''e'' then
        bnd (get active_camera) (\<lambda>active.
        seq (adjust_exposure E active ''up'') (ret False))
      else if key = ord CHR ''c'' then
        bnd (get active_camera) (\<lambda>active.
        seq (adjust_exposure E active ''down'') (ret False))
      else if key = ord CHR ''b'' then
        bnd (get active_camera) (\<lambda>active.
        seq (adjust_brightness E active ''up'') (ret False))
      else if key = ord CHR ''v'' then
        bnd (get active_camera) (\<lambda>active.
        seq (adjust_brightness E active ''down'') (ret False))
      else if key = ord CHR ''p'' then
        seq (modify (\<lambda>c. c\<lparr>preview_active := \<not> preview_active c\<rparr>))
       (bnd (get preview_active) (\<lambda>p.
        seq (if p then print ''Preview resumed'' else print ''Preview paused'')
       (ret False)))
      else ret False)"

definition wait_key :: "env \<Rightarrow> int \<Rightarrow> int prog" where
  "wait_key E delay = call_val E (WaitKey delay) (\<lambda>h. keyboard E h)"

text \<open>One iteration of \<open>while True\<close>.\<close>

definition loop_body :: "env \<Rightarrow> bool prog" where
  "loop_body E =
     bnd (get cameras) (\<lambda>cams.
     bnd (capture_frames E (enumerate cams) []) (\<lambda>frames.
     seq (bnd (get preview_active) (\<lambda>p.
          if p then
            bnd (lift (hstack (map CvtColorRGB2BGR frames))) (\<lambda>combined_frame.
            call E (Imshow ''Dual Camera Preview'' combined_frame))
          else ret ()))
    (bnd (wait_key E 1) (\<lambda>k.
     let key = k AND 255 in
     handle_key E key))))"

text \<open>
  The loop with a bound on its iterations: \<open>None\<close> when the bound is used up before
  the loop is left, by \<open>break\<close> or by an exception.
\<close>

fun run_loop :: "env \<Rightarrow> nat \<Rightarrow> st \<Rightarrow> ((exn + unit) \<times> st) option" where
  "run_loop E 0 s = None"
| "run_loop E (Suc n) s =
     (case loop_body E s of
        (Inl e, s') \<Rightarrow> Some (Inl e, s')
      | (Inr True, s') \<Rightarrow> Some (Inr (), s')
      | (Inr False, s') \<Rightarrow> run_loop E n s')"

definition banner :: "string list" where
  "banner =
     [CHR 0x0A # ''Dual Camera Controller Started'',
      ''--------------------------------'',
      ''Controls:'',
      ''  1, 2      - Select Camera 1 or 2'',
      ''  s         - Save image from active camera'',
      ''  d         - Save images from both cameras'',
      ''  r         - Change resolution'',
      ''  e/c       - Increase/decrease exposure of active camera'',
      ''  b/v       - Increase/decrease brightness of active camera'',
      ''  p         - Pause/resume preview'',
      ''  q         - Quit application'',
      ''--------------------------------'']"

definition clean_up :: "env \<Rightarrow> unit prog" where
  "clean_up E =
     seq (call E DestroyAllWindows)
    (bnd (get cameras) (\<lambda>cams.
     seq (for_each cams (\<lambda>camera. call E (Stop camera)))
    (print ''Application terminated'')))"

definition run :: "env \<Rightarrow> nat \<Rightarrow> st \<Rightarrow> ((exn + unit) \<times> st) option" where
  "run E n s =
     (case for_each banner print s of
        (Inl e, s') \<Rightarrow> Some (Inl e, s')
      | (Inr u, s') \<Rightarrow>
          (case run_loop E n s' of
             None \<Rightarrow> None
           | Some (Inl e, s'') \<Rightarrow> Some (Inl e, s'')
           | Some (Inr u, s'') \<Rightarrow> Some (clean_up E s'')))"

subsection \<open>Construction\<close>

definition setup_cameras :: "env \<Rightarrow> unit prog" where
  "setup_cameras E = (\<lambda>s.
     case
       (bnd (get save_directory) (\<lambda>dir.
        seq (bnd (call_val E (PathExists dir) (\<lambda>h. path_exists E h dir)) (\<lambda>present.
             if \<not> present then call E (Makedirs dir) else ret ()))
       (seq (for_each [0, 1] (\<lambda>i.
               seq (call E (Picamera2 i))
              (bnd (get current_resolution_idx) (\<lambda>idx.
               bnd (item resolution_options idx) (\<lambda>size.
               bnd (create_preview_configuration E i size (640, 480) ''lores'') (\<lambda>config.
               seq (call E (Configure i config))
              (seq (call E (Start i))
              (modify (\<lambda>c. c\<lparr>cameras := cameras c @ [i]\<rparr>)))))))))
       (print ''Both cameras initialized successfully'')))) s
     of
       (Inl (Exception cls msg), s') \<Rightarrow>
          seq (print (''Error initializing cameras: '' @ msg)) (raise (SystemExit 1)) s'
     | r \<Rightarrow> r)"

definition init :: "env \<Rightarrow> event list \<Rightarrow> (exn + unit) \<times> st" where
  "init E h =
     setup_cameras E
       (\<lparr>cameras = [],
         active_camera = 0,
         preview_active = True,
         exposure_values = [0, 0],
         brightness_values = [0, 0],
         resolution_options = [(640, 480), (1280, 720), (1920, 1080), (2592, 1944)],
         current_resolution_idx = 0,
         save_directory = ''camera_captures''\<rparr>, h)"

subsection \<open>Notions the properties are stated with\<close>

text \<open>Both slots have a camera, an exposure value and a brightness value.\<close>

definition two_slots :: "controller \<Rightarrow> bool" where
  "two_slots c =
     (length (cameras c) = 2 \<and> length (exposure_values c) = 2 \<and>
      length (brightness_values c) = 2)"

definition in_bounds :: "controller \<Rightarrow> bool" where
  "in_bounds c =
     (list_all (\<lambda>v. - 8 \<le> v \<and> v \<le> 8) (exposure_values c) \<and>
      list_all (\<lambda>v. - 100 \<le> v \<and> v \<le> 100) (brightness_values c))"

text \<open>
  A sequence of adjustment calls; each call is made on the state the one before left,
  whether or not that one raised.
\<close>

datatype adjustment = Exposure int string | Brightness int string

fun slot :: "adjustment \<Rightarrow> int" where
  "slot (Exposure i d) = i"
| "slot (Brightness i d) = i"

fun adjust :: "env \<Rightarrow> adjustment \<Rightarrow> unit prog" where
  "adjust E (Exposure i d) = adjust_exposure E i d"
| "adjust E (Brightness i d) = adjust_brightness E i d"

fun adjust_all :: "env \<Rightarrow> adjustment list \<Rightarrow> st \<Rightarrow> st" where
  "adjust_all E [] s = s"
| "adjust_all E (a # rest) s = adjust_all E rest (snd (adjust E a s))"

text \<open>An outside where nothing fails and no key is pressed, and one whose first camera is dead.\<close>

definition quiet :: env where
  "quiet =
     \<lparr>fault = (\<lambda>h ev. None),
      path_exists = (\<lambda>h p. True),
      sensor = (\<lambda>h cam. Sensor 2 3 [nat cam, length h]),
      clock = (\<lambda>h. \<lparr>tm_year = 2024, tm_mon = 3, tm_mday = 9,
                     tm_hour = 14, tm_min = 5, tm_sec = 7\<rparr>),
      imwrite_ok = (\<lambda>h f img. True),
      keyboard = (\<lambda>h. - 1)\<rparr>"

definition capture_failed :: exn where
  "capture_failed = Exception ''RuntimeError'' ''camera frontend has timed out''"

definition camera0_dead :: env where
  "camera0_dead =
     quiet\<lparr>fault := (\<lambda>h ev. if ev = CaptureArray 0 then Some capture_failed else None)\<rparr>"

text \<open>The controller as \<open>__init__\<close> leaves it when both cameras start.\<close>

definition ready :: controller where
  "ready =
     \<lparr>cameras = [0, 1],
      active_camera = 0,
      preview_active = True,
      exposure_values = [0, 0],
      brightness_values = [0, 0],
      resolution_options = [(640, 480), (1280, 720), (1920, 1080), (2592, 1944)],
      current_resolution_idx = 0,
      save_directory = ''camera_captures''\<rparr>"

text \<open>The keys the main loop acts on.\<close>

definition command_keys :: "int list" where
  "command_keys = map ord ''q12sdrecbvp''"

text \<open>
  What \<open>change_resolution\<close> is to do with one camera, in order, and the line it
  prints at the end; the index it moves to.
\<close>

definition slot_reconfiguration :: "int \<Rightarrow> int \<times> int \<Rightarrow> event list" where
  "slot_reconfiguration cam res =
     [Stop cam,
      CreatePreviewConfiguration cam res (640, 480) ''lores'',
      Configure cam \<lparr>main_size = res, lores_size = (640, 480), display = ''lores''\<rparr>,
      Start cam]"

definition next_idx :: "controller \<Rightarrow> int" where
  "next_idx c = (current_resolution_idx c + 1) mod int (length (resolution_options c))"

definition resolution_line :: "int \<times> int \<Rightarrow> string" where
  "resolution_line res =
     ''Resolution changed to '' @ str_int (fst res) @ ''x'' @ str_int (snd res)"

text \<open>A method called \<open>n\<close> times in a row, whatever each call's outcome.\<close>

primrec repeated :: "nat \<Rightarrow> 'a prog \<Rightarrow> st \<Rightarrow> st" where
  "repeated 0 m s = s"
| "repeated (Suc n) m s = repeated n m (snd (m s))"

text \<open>
  Whether something was drawn on a frame, and the name \<open>capture_image\<close> gives the
  file of slot \<open>i\<close> at local time \<open>t\<close>.
\<close>

fun overlaid :: "image \<Rightarrow> bool" where
  "overlaid (Sensor h w d) = False"
| "overlaid (ConvertScaleAbs f a b) = overlaid f"
| "overlaid (Rectangle f p q col t) = True"
| "overlaid (AddWeightedHalf f g) = True"
| "overlaid (PutText f txt p) = True"
| "overlaid (CvtColorRGB2BGR f) = overlaid f"
| "overlaid (HCat f g) = (overlaid f \<or> overlaid g)"

definition snapshot_path :: "controller \<Rightarrow> int \<Rightarrow> struct_time \<Rightarrow> string" where
  "snapshot_path c i t =
     save_directory c @ ''/camera'' @ str_int (i + 1) @ ''_'' @
     str_nat (tm_year t) @ pad2 (tm_mon t) @ pad2 (tm_mday t) @ ''_'' @
     pad2 (tm_hour t) @ pad2 (tm_min t) @ pad2 (tm_sec t) @ ''.jpg''"

text \<open>
  The state the main loop is in after \<open>k\<close> iterations that neither raised nor left
  the loop, and a list of calls made in order up to the first one that raises.
\<close>

fun iterations :: "env \<Rightarrow> nat \<Rightarrow> st \<Rightarrow> st option" where
  "iterations E 0 s = Some s"
| "iterations E (Suc k) s =
     (case loop_body E s of
        (Inr False, s') \<Rightarrow> iterations E k s'
      | (Inr True, s') \<Rightarrow> None
      | (Inl e, s') \<Rightarrow> None)"

fun until_fault :: "env \<Rightarrow> event list \<Rightarrow> event list \<Rightarrow> exn option \<times> event list" where
  "until_fault E h [] = (None, h)"
| "until_fault E h (ev # evs) =
     (case fault E h ev of
        Some e \<Rightarrow> (Some e, h @ [ev])
      | None \<Rightarrow> until_fault E (h @ [ev]) evs)"

section \<open>Properties\<close>

subsection \<open>Basic facts\<close>

lemmas prog_defs =
  ret_def raise_def bnd_def seq_def get_def modify_def lift_def call_def call_val_def
  print_def item_def set_exposure_item_def set_brightness_item_def

lemma init_quiet_ready: "fst (init quiet []) = Inr () \<and> fst (snd (init quiet [])) = ready"
  by (simp add: init_def setup_cameras_def prog_defs quiet_def ready_def
        create_preview_configuration_def py_index_def py_pos_def)

lemma py_index_valid:
  "0 \<le> i \<Longrightarrow> nat i < length xs \<Longrightarrow> py_index xs i = Inr (xs ! nat i)"
  by (simp add: py_index_def py_pos_def)

lemma py_store_valid:
  "0 \<le> i \<Longrightarrow> nat i < length xs \<Longrightarrow> py_store xs i v = Inr (xs[nat i := v])"
  by (simp add: py_store_def py_pos_def)

lemma list_all_update:
  assumes "list_all P xs" and "P v"
  shows "list_all P (xs[n := v])"
  unfolding list_all_length
proof (intro allI impI)
  fix k
  assume "k < length (xs[n := v])"
  with assms show "P (xs[n := v] ! k)"
    by (cases "k = n") (simp_all add: list_all_length)
qed

lemma list_all_nth:
  assumes "list_all P xs" and "n < length xs"
  shows "P (xs ! n)"
  using assms by (simp add: list_all_length)

lemma two_slots_ready: "two_slots ready"
  by (simp add: two_slots_def ready_def)

lemma in_bounds_ready: "in_bounds ready"
  by (simp add: in_bounds_def ready_def)

subsection \<open>Exposure and brightness steps\<close>

lemma adjust_exposure_valid:
  assumes "0 \<le> i" "nat i < length (exposure_values c)" "nat i < length (cameras c)"
  shows "adjust_exposure E i d (c, h) =
     (let v = exposure_values c ! nat i;
          v' = (if d = ''up'' then min 8 (v + 1) else max (- 8) (v - 1));
          c' = c\<lparr>exposure_values := (exposure_values c)[nat i := v']\<rparr>;
          ev = SetControls (cameras c ! nat i) ''ExposureValue'' v'
      in case fault E h ev of
           Some e \<Rightarrow> (Inl e, c', h @ [ev])
         | None \<Rightarrow> (Inr (), c', h @ [ev, Print (''Camera '' @ str_int (i + 1)
                        @ '' exposure compensation: '' @ str_int v')]))"
  using assms
  by (simp add: adjust_exposure_def prog_defs py_index_valid py_store_valid Let_def
           split: option.splits)

lemma adjust_brightness_valid:
  assumes "0 \<le> i" "nat i < length (brightness_values c)"
  shows "adjust_brightness E i d (c, h) =
     (let v = brightness_values c ! nat i;
          v' = (if d = ''up'' then min 100 (v + 5) else max (- 100) (v - 5));
          c' = c\<lparr>brightness_values := (brightness_values c)[nat i := v']\<rparr>
      in (Inr (), c', h @ [Print (''Camera '' @ str_int (i + 1) @ '' brightness: ''
                        @ str_int v')]))"
  using assms
  by (simp add: adjust_brightness_def prog_defs py_index_valid py_store_valid Let_def)

lemma adjust_exposure_controller:
  assumes "0 \<le> i" "nat i < length (exposure_values c)" "nat i < length (cameras c)"
  shows "fst (snd (adjust_exposure E i d (c, h))) =
     c\<lparr>exposure_values := (exposure_values c)
          [nat i := (if d = ''up'' then min 8 (exposure_values c ! nat i + 1)
                     else max (- 8) (exposure_values c ! nat i - 1))]\<rparr>"
  by (simp add: adjust_exposure_valid [OF assms] Let_def split: option.splits)

lemma adjust_brightness_controller:
  assumes "0 \<le> i" "nat i < length (brightness_values c)"
  shows "fst (snd (adjust_brightness E i d (c, h))) =
     c\<lparr>brightness_values := (brightness_values c)
          [nat i := (if d = ''up'' then min 100 (brightness_values c ! nat i + 5)
                     else max (- 100) (brightness_values c ! nat i - 5))]\<rparr>"
  by (simp add: adjust_brightness_valid [OF assms] Let_def)

lemma adjust_keeps:
  assumes "in_bounds c" "two_slots c" "slot a = 0 \<or> slot a = 1"
  shows "in_bounds (fst (snd (adjust E a (c, h)))) \<and> two_slots (fst (snd (adjust E a (c, h))))"
proof (cases a)
  case (Exposure i d)
  with assms have i: "0 \<le> i" "nat i < length (exposure_values c)" "nat i < length (cameras c)"
    by (auto simp: two_slots_def)
  let ?P = "\<lambda>v::int. - 8 \<le> v \<and> v \<le> 8"
  let ?w = "if d = ''up'' then min 8 (exposure_values c ! nat i + 1)
            else max (- 8) (exposure_values c ! nat i - 1)"
  from assms(1) have all: "list_all ?P (exposure_values c)"
    by (simp add: in_bounds_def)
  then have "?P (exposure_values c ! nat i)"
    using i(2) by (rule list_all_nth)
  then have "?P ?w"
    by (auto simp: min_def max_def)
  with all have "list_all ?P ((exposure_values c)[nat i := ?w])"
    by (rule list_all_update)
  with assms(1,2) show ?thesis
    unfolding Exposure adjust.simps adjust_exposure_controller [OF i]
    by (simp add: in_bounds_def two_slots_def)
next
  case (Brightness i d)
  with assms have i: "0 \<le> i" "nat i < length (brightness_values c)"
    by (auto simp: two_slots_def)
  let ?P = "\<lambda>v::int. - 100 \<le> v \<and> v \<le> 100"
  let ?w = "if d = ''up'' then min 100 (brightness_values c ! nat i + 5)
            else max (- 100) (brightness_values c ! nat i - 5)"
  from assms(1) have all: "list_all ?P (brightness_values c)"
    by (simp add: in_bounds_def)
  then have "?P (brightness_values c ! nat i)"
    using i(2) by (rule list_all_nth)
  then have "?P ?w"
    by (auto simp: min_def max_def)
  with all have "list_all ?P ((brightness_values c)[nat i := ?w])"
    by (rule list_all_update)
  with assms(1,2) show ?thesis
    unfolding Brightness adjust.simps adjust_brightness_controller [OF i]
    by (simp add: in_bounds_def two_slots_def)
qed

lemma adjust_all_keeps:
  assumes "in_bounds c" "two_slots c" "\<forall>a \<in> set calls. slot a = 0 \<or> slot a = 1"
  shows "in_bounds (fst (adjust_all E calls (c, h))) \<and> two_slots (fst (adjust_all E calls (c, h)))"
  using assms
proof (induction calls arbitrary: c h)
  case Nil
  then show ?case by simp
next
  case (Cons a rest)
  obtain r c' h' where step: "adjust E a (c, h) = (r, c', h')"
    by (cases "adjust E a (c, h)") auto
  from Cons.prems have "slot a = 0 \<or> slot a = 1" by simp
  from adjust_keeps [OF Cons.prems(1,2) this, of E h] step
  have "in_bounds c'" "two_slots c'" by simp_all
  moreover from Cons.prems have "\<forall>a \<in> set rest. slot a = 0 \<or> slot a = 1" by simp
  ultimately have "in_bounds (fst (adjust_all E rest (c', h'))) \<and>
      two_slots (fst (adjust_all E rest (c', h')))"
    by (rule Cons.IH)
  with step show ?case by simp
qed

lemma exposure_step_at_bound:
  assumes "two_slots c" "i = 0 \<or> i = 1"
    and "exposure_values c ! nat i = 8 \<and> d = ''up'' \<or>
         exposure_values c ! nat i = - 8 \<and> d \<noteq> ''up''"
  shows "fst (snd (adjust_exposure E i d (c, h))) = c"
    and "fault E h (SetControls (cameras c ! nat i) ''ExposureValue''
           (exposure_values c ! nat i)) = None \<Longrightarrow>
         fst (adjust_exposure E i d (c, h)) = Inr ()"
proof -
  from assms(1,2)
  have i: "0 \<le> i" "nat i < length (exposure_values c)" "nat i < length (cameras c)"
    by (auto simp: two_slots_def)
  from assms(3) have "(exposure_values c)
      [nat i := (if d = ''up'' then min 8 (exposure_values c ! nat i + 1)
                 else max (- 8) (exposure_values c ! nat i - 1))] = exposure_values c"
    by (auto simp: list_update_same_conv [OF i(2)])
  then show "fst (snd (adjust_exposure E i d (c, h))) = c"
    unfolding adjust_exposure_controller [OF i] by simp
  assume "fault E h (SetControls (cameras c ! nat i) ''ExposureValue''
           (exposure_values c ! nat i)) = None"
  with assms(3) show "fst (adjust_exposure E i d (c, h)) = Inr ()"
    unfolding adjust_exposure_valid [OF i] by (auto simp: Let_def)
qed

lemma brightness_step_at_bound:
  assumes "two_slots c" "i = 0 \<or> i = 1"
    and "brightness_values c ! nat i = 100 \<and> d = ''up'' \<or>
         brightness_values c ! nat i = - 100 \<and> d \<noteq> ''up''"
  shows "fst (snd (adjust_brightness E i d (c, h))) = c"
proof -
  from assms(1,2) have i: "0 \<le> i" "nat i < length (brightness_values c)"
    by (auto simp: two_slots_def)
  from assms(3) have "(brightness_values c)
      [nat i := (if d = ''up'' then min 100 (brightness_values c ! nat i + 5)
                 else max (- 100) (brightness_values c ! nat i - 5))] = brightness_values c"
    by (auto simp: list_update_same_conv [OF i(2)])
  then show ?thesis
    unfolding adjust_brightness_controller [OF i] by simp
qed

text \<open>
  C1. From a controller whose exposure values lie in \<open>[-8, 8]\<close> and whose brightness
  values lie in \<open>[-100, 100]\<close>, every sequence of \<open>adjust_exposure\<close> and
  \<open>adjust_brightness\<close> calls on slot 0 or 1, with any direction, leaves them there.
  One call moves the slot's exposure by 1 and its brightness by 5, stopping at the bound;
  a call at the bound leaves the controller as it was, and raises nothing of its own:
  \<open>adjust_brightness\<close> never raises, \<open>adjust_exposure\<close> only if the camera
  refuses the control.
\<close>

theorem adjust_within_bounds:
  assumes "in_bounds c" and "two_slots c"
    and "\<forall>a \<in> set calls. slot a = 0 \<or> slot a = 1"
    and "i = 0 \<or> i = 1"
  shows "in_bounds (fst (adjust_all E calls (c, h))) \<and>
     exposure_values (fst (snd (adjust_exposure E i d (c, h)))) ! nat i =
       (if d = ''up'' then min 8 (exposure_values c ! nat i + 1)
        else max (- 8) (exposure_values c ! nat i - 1)) \<and>
     brightness_values (fst (snd (adjust_brightness E i d (c, h)))) ! nat i =
       (if d = ''up'' then min 100 (brightness_values c ! nat i + 5)
        else max (- 100) (brightness_values c ! nat i - 5)) \<and>
     (exposure_values c ! nat i = 8 \<and> d = ''up'' \<or>
      exposure_values c ! nat i = - 8 \<and> d \<noteq> ''up'' \<longrightarrow>
        fst (snd (adjust_exposure E i d (c, h))) = c \<and>
        (fault E h (SetControls (cameras c ! nat i) ''ExposureValue''
           (exposure_values c ! nat i)) = None \<longrightarrow>
         fst (adjust_exposure E i d (c, h)) = Inr ())) \<and>
     (brightness_values c ! nat i = 100 \<and> d = ''up'' \<or>
      brightness_values c ! nat i = - 100 \<and> d \<noteq> ''up'' \<longrightarrow>
        fst (snd (adjust_brightness E i d (c, h))) = c) \<and>
     fst (adjust_brightness E i d (c, h)) = Inr ()"
proof -
  from assms(2,4)
  have i: "0 \<le> i" "nat i < length (exposure_values c)" "nat i < length (cameras c)"
    and j: "nat i < length (brightness_values c)"
    by (auto simp: two_slots_def)
  have "in_bounds (fst (adjust_all E calls (c, h)))"
    using adjust_all_keeps [OF assms(1,2,3)] by simp
  moreover have "exposure_values (fst (snd (adjust_exposure E i d (c, h)))) ! nat i =
       (if d = ''up'' then min 8 (exposure_values c ! nat i + 1)
        else max (- 8) (exposure_values c ! nat i - 1))"
    unfolding adjust_exposure_controller [OF i] using i(2) by simp
  moreover have "brightness_values (fst (snd (adjust_brightness E i d (c, h)))) ! nat i =
       (if d = ''up'' then min 100 (brightness_values c ! nat i + 5)
        else max (- 100) (brightness_values c ! nat i - 5))"
    unfolding adjust_brightness_controller [OF i(1) j] using j by simp
  moreover have "fst (adjust_brightness E i d (c, h)) = Inr ()"
    unfolding adjust_brightness_valid [OF i(1) j] by (simp add: Let_def)
  ultimately show ?thesis
    using exposure_step_at_bound [OF assms(2,4)] brightness_step_at_bound [OF assms(2,4)]
    by blast
qed

theorem adjust_within_bounds_witness:
  "in_bounds ready \<and> two_slots ready \<and>
   in_bounds (fst (adjust_all quiet
     [Exposure 0 ''up'', Brightness 1 ''down'', Exposure 1 ''left''] (ready, []))) \<and>
   exposure_values (fst (adjust_all quiet
     [Exposure 0 ''up'', Brightness 1 ''down'', Exposure 1 ''left''] (ready, []))) = [1, - 1] \<and>
   brightness_values (fst (adjust_all quiet
     [Exposure 0 ''up'', Brightness 1 ''down'', Exposure 1 ''left''] (ready, []))) = [0, - 5]"
proof -
  have calls: "\<forall>a \<in> set [Exposure 0 ''up'', Brightness 1 ''down'', Exposure 1 ''left''].
      slot a = 0 \<or> slot a = 1"
    by simp
  have i: "(0::int) = 0 \<or> (0::int) = 1"
    by simp
  have "in_bounds (fst (adjust_all quiet
     [Exposure 0 ''up'', Brightness 1 ''down'', Exposure 1 ''left''] (ready, [])))"
    using adjust_within_bounds [OF in_bounds_ready two_slots_ready calls i] by (rule conjunct1)
  then show ?thesis
    using in_bounds_ready two_slots_ready
    by (simp add: adjust_exposure_controller adjust_brightness_controller
          adjust_exposure_valid adjust_brightness_valid ready_def quiet_def Let_def)
qed

text \<open>
  C10. A direction other than the string \<open>up\<close> is a step down: the call does what
  it does for \<open>down\<close>. On slot 0 or 1 the exposure goes down by 1, not below -8,
  and the brightness down by 5, not below -100; nothing is raised for the direction.
\<close>

theorem unknown_direction_steps_down:
  assumes "d \<noteq> ''up''" and "two_slots c" and "i = 0 \<or> i = 1"
  shows "adjust_exposure E i d (c, h) = adjust_exposure E i ''down'' (c, h) \<and>
     adjust_brightness E i d (c, h) = adjust_brightness E i ''down'' (c, h) \<and>
     exposure_values (fst (snd (adjust_exposure E i d (c, h)))) =
       (exposure_values c)[nat i := max (- 8) (exposure_values c ! nat i - 1)] \<and>
     brightness_values (fst (snd (adjust_brightness E i d (c, h)))) =
       (brightness_values c)[nat i := max (- 100) (brightness_values c ! nat i - 5)] \<and>
     (fault E h (SetControls (cameras c ! nat i) ''ExposureValue''
        (max (- 8) (exposure_values c ! nat i - 1))) = None \<longrightarrow>
      fst (adjust_exposure E i d (c, h)) = Inr ()) \<and>
     fst (adjust_brightness E i d (c, h)) = Inr ()"
proof -
  from assms(2,3)
  have i: "0 \<le> i" "nat i < length (exposure_values c)" "nat i < length (cameras c)"
    and j: "nat i < length (brightness_values c)"
    by (auto simp: two_slots_def)
  from assms(1) have "adjust_exposure E i d (c, h) = adjust_exposure E i ''down'' (c, h)"
    by (simp add: adjust_exposure_def)
  moreover from assms(1)
  have "adjust_brightness E i d (c, h) = adjust_brightness E i ''down'' (c, h)"
    by (simp add: adjust_brightness_def)
  moreover from assms(1)
  have "exposure_values (fst (snd (adjust_exposure E i d (c, h)))) =
       (exposure_values c)[nat i := max (- 8) (exposure_values c ! nat i - 1)]"
    unfolding adjust_exposure_controller [OF i] by simp
  moreover from assms(1)
  have "brightness_values (fst (snd (adjust_brightness E i d (c, h)))) =
       (brightness_values c)[nat i := max (- 100) (brightness_values c ! nat i - 5)]"
    unfolding adjust_brightness_controller [OF i(1) j] by simp
  moreover from assms(1)
  have "fault E h (SetControls (cameras c ! nat i) ''ExposureValue''
        (max (- 8) (exposure_values c ! nat i - 1))) = None \<longrightarrow>
      fst (adjust_exposure E i d (c, h)) = Inr ()"
    unfolding adjust_exposure_valid [OF i] by (simp add: Let_def)
  moreover have "fst (adjust_brightness E i d (c, h)) = Inr ()"
    unfolding adjust_brightness_valid [OF i(1) j] by (simp add: Let_def)
  ultimately show ?thesis by blast
qed

theorem unknown_direction_steps_down_witness:
  "''sideways'' \<noteq> ''up'' \<and> two_slots ready \<and>
   exposure_values (fst (snd (adjust_exposure quiet 1 ''sideways'' (ready, [])))) = [0, - 1] \<and>
   brightness_values (fst (snd (adjust_brightness quiet 1 ''sideways'' (ready, [])))) = [0, - 5]"
proof -
  have d: "''sideways'' \<noteq> ''up''" by simp
  have i: "(1::int) = 0 \<or> (1::int) = 1" by simp
  note step = unknown_direction_steps_down [OF d two_slots_ready i, of quiet "[]"]
  from step have "exposure_values (fst (snd (adjust_exposure quiet 1 ''sideways'' (ready, [])))) =
       (exposure_values ready)[nat 1 := max (- 8) (exposure_values ready ! nat 1 - 1)]"
    by blast
  moreover from step
  have "brightness_values (fst (snd (adjust_brightness quiet 1 ''sideways'' (ready, [])))) =
       (brightness_values ready)[nat 1 := max (- 100) (brightness_values ready ! nat 1 - 5)]"
    by blast
  ultimately show ?thesis
    using d two_slots_ready by (simp add: ready_def)
qed

subsection \<open>Resolution\<close>

lemma next_idx_range:
  assumes "resolution_options c \<noteq> []"
  shows "0 \<le> next_idx c" and "nat (next_idx c) < length (resolution_options c)"
  using assms by (simp_all add: next_idx_def nat_less_iff)

lemma cycle_resolution_eq:
  assumes "resolution_options c \<noteq> []"
  shows "cycle_resolution (c, h) =
     (Inr (resolution_options c ! nat (next_idx c)),
      c\<lparr>current_resolution_idx := next_idx c\<rparr>, h)"
  using assms next_idx_range [OF assms]
  by (simp add: cycle_resolution_def prog_defs py_index_valid next_idx_def)

lemma reconfigure_one:
  fixes E res
  defines "body \<equiv> (\<lambda>(i::int, camera).
            seq (call E (Stop camera))
           (bnd (create_preview_configuration E camera res (640, 480) ''lores'') (\<lambda>config.
            seq (call E (Configure camera config))
           (call E (Start camera)))))"
  shows "\<exists>r evs. body (i, cam) (c, h) = (r, c, h @ evs) \<and>
     prefix evs (slot_reconfiguration cam res) \<and>
     (r = Inr () \<longrightarrow> evs = slot_reconfiguration cam res)"
  by (auto simp: body_def prog_defs create_preview_configuration_def slot_reconfiguration_def
        split: option.splits)

lemma reconfigure_all:
  fixes E res
  defines "body \<equiv> (\<lambda>(i::int, camera).
            seq (call E (Stop camera))
           (bnd (create_preview_configuration E camera res (640, 480) ''lores'') (\<lambda>config.
            seq (call E (Configure camera config))
           (call E (Start camera)))))"
  shows "\<exists>r evs. for_each ps body (c, h) = (r, c, h @ evs) \<and>
     prefix evs (concat (map (\<lambda>(i, cam). slot_reconfiguration cam res) ps)) \<and>
     (r = Inr () \<longrightarrow> evs = concat (map (\<lambda>(i, cam). slot_reconfiguration cam res) ps))"
proof (induction ps arbitrary: h)
  case Nil
  show ?case by (simp add: ret_def)
next
  case (Cons p ps)
  obtain i cam where p: "p = (i, cam)" by (cases p)
  from reconfigure_one [of E res i cam c h]
  obtain r evs where one: "body (i, cam) (c, h) = (r, c, h @ evs)"
      "prefix evs (slot_reconfiguration cam res)"
      "r = Inr () \<longrightarrow> evs = slot_reconfiguration cam res"
    unfolding body_def by blast
  show ?case
  proof (cases r)
    case (Inl e)
    with one(1) have "for_each (p # ps) body (c, h) = (Inl e, c, h @ evs)"
      by (simp add: p seq_def bnd_def)
    moreover from one(2)
    have "prefix evs (concat (map (\<lambda>(i, cam). slot_reconfiguration cam res) (p # ps)))"
      by (simp add: p prefix_prefix)
    ultimately show ?thesis by blast
  next
    case (Inr u)
    with one(3) have evs: "evs = slot_reconfiguration cam res" by simp
    from Cons.IH [of "h @ evs"]
    obtain r' evs' where rest: "for_each ps body (c, h @ evs) = (r', c, (h @ evs) @ evs')"
      "prefix evs' (concat (map (\<lambda>(i, cam). slot_reconfiguration cam res) ps))"
      "r' = Inr () \<longrightarrow> evs' = concat (map (\<lambda>(i, cam). slot_reconfiguration cam res) ps)"
      by blast
    from one(1) Inr rest(1)
    have "for_each (p # ps) body (c, h) = (r', c, h @ (evs @ evs'))"
      by (simp add: p seq_def bnd_def)
    moreover from rest(2)
    have "prefix (evs @ evs') (concat (map (\<lambda>(i, cam). slot_reconfiguration cam res) (p # ps)))"
      by (simp add: p evs)
    moreover from rest(3)
    have "r' = Inr () \<longrightarrow>
        evs @ evs' = concat (map (\<lambda>(i, cam). slot_reconfiguration cam res) (p # ps))"
      by (simp add: p evs)
    ultimately show ?thesis by blast
  qed
qed

lemma change_resolution_trace:
  assumes "resolution_options c \<noteq> []"
  defines "res \<equiv> resolution_options c ! nat (next_idx c)"
  defines "whole \<equiv> concat (map (\<lambda>(i, cam). slot_reconfiguration cam res) (enumerate (cameras c)))
                     @ [Print (resolution_line res)]"
  shows "\<exists>r evs. change_resolution E (c, h) =
       (r, c\<lparr>current_resolution_idx := next_idx c\<rparr>, h @ evs) \<and>
     prefix evs whole \<and> (r = Inr () \<longrightarrow> evs = whole)"
proof -
  let ?c = "c\<lparr>current_resolution_idx := next_idx c\<rparr>"
  let ?body = "(\<lambda>(i::int, camera).
            seq (call E (Stop camera))
           (bnd (create_preview_configuration E camera res (640, 480) ''lores'') (\<lambda>config.
            seq (call E (Configure camera config))
           (call E (Start camera)))))"
  let ?all = "concat (map (\<lambda>(i, cam). slot_reconfiguration cam res) (enumerate (cameras c)))"
  from reconfigure_all [of "enumerate (cameras c)" E res ?c h]
  obtain r evs where loop: "for_each (enumerate (cameras c)) ?body (?c, h) = (r, ?c, h @ evs)"
      "prefix evs ?all" "r = Inr () \<longrightarrow> evs = ?all"
    by blast
  have unfold: "change_resolution E (c, h) =
      seq (for_each (enumerate (cameras c)) ?body) (print (resolution_line res)) (?c, h)"
    by (simp add: change_resolution_def cycle_resolution_eq [OF assms(1)] bnd_def get_def
          res_def resolution_line_def)
  show ?thesis
  proof (cases r)
    case (Inl e)
    with loop(1) have "change_resolution E (c, h) = (Inl e, ?c, h @ evs)"
      by (simp add: unfold seq_def bnd_def)
    moreover from loop(2) have "prefix evs whole"
      by (simp add: whole_def prefix_prefix)
    ultimately show ?thesis by blast
  next
    case (Inr u)
    with loop(3) have "evs = ?all" by simp
    with loop(1) Inr have "change_resolution E (c, h) = (Inr (), ?c, h @ whole)"
      by (simp add: unfold seq_def bnd_def print_def whole_def)
    then show ?thesis by blast
  qed
qed

lemma change_resolution_controller:
  assumes "resolution_options c \<noteq> []"
  shows "fst (snd (change_resolution E (c, h))) = c\<lparr>current_resolution_idx := next_idx c\<rparr>"
  using change_resolution_trace [OF assms, of E h] by auto

lemma enumerate_two: "enumerate [a, b] = [(0, a), (1, b)]"
  by (simp add: enumerate_def upt_rec)

text \<open>
  C5. With at least one resolution option, the index moves to the next one modulo their
  number, and the pair selected (the value bound to \<open>resolution\<close>) is the option at
  the new index, which is in range. \<open>change_resolution\<close> leaves the controller
  with that index whether or not a camera call raises, and prints that pair when none
  does.
\<close>

theorem cycle_resolution_advances:
  assumes "resolution_options c \<noteq> []"
  shows "cycle_resolution (c, h) =
       (Inr (resolution_options c !
               nat ((current_resolution_idx c + 1) mod int (length (resolution_options c)))),
        c\<lparr>current_resolution_idx :=
             (current_resolution_idx c + 1) mod int (length (resolution_options c))\<rparr>,
        h) \<and>
     py_index (resolution_options c)
         ((current_resolution_idx c + 1) mod int (length (resolution_options c))) =
       Inr (resolution_options c !
               nat ((current_resolution_idx c + 1) mod int (length (resolution_options c)))) \<and>
     fst (snd (change_resolution E (c, h))) =
       c\<lparr>current_resolution_idx :=
            (current_resolution_idx c + 1) mod int (length (resolution_options c))\<rparr> \<and>
     (fst (change_resolution E (c, h)) = Inr () \<longrightarrow>
        last (snd (snd (change_resolution E (c, h)))) =
          Print (resolution_line (resolution_options c !
               nat ((current_resolution_idx c + 1) mod int (length (resolution_options c))))))"
proof -
  note range = next_idx_range [OF assms]
  have "py_index (resolution_options c) (next_idx c) =
      Inr (resolution_options c ! nat (next_idx c))"
    using range by (rule py_index_valid)
  moreover have "fst (change_resolution E (c, h)) = Inr () \<longrightarrow>
        last (snd (snd (change_resolution E (c, h)))) =
          Print (resolution_line (resolution_options c ! nat (next_idx c)))"
    using change_resolution_trace [OF assms, of E h] by auto
  ultimately show ?thesis
    using cycle_resolution_eq [OF assms, of h] change_resolution_controller [OF assms, of E h]
    unfolding next_idx_def by simp
qed

theorem cycle_resolution_advances_witness:
  "resolution_options ready \<noteq> [] \<and>
   cycle_resolution (ready, []) = (Inr (1280, 720), ready\<lparr>current_resolution_idx := 1\<rparr>, [])"
proof -
  have opts: "resolution_options ready \<noteq> []"
    by (simp add: ready_def)
  from cycle_resolution_advances [OF opts, of "[]" quiet]
  have "cycle_resolution (ready, []) =
       (Inr (resolution_options ready !
               nat ((current_resolution_idx ready + 1) mod int (length (resolution_options ready)))),
        ready\<lparr>current_resolution_idx :=
             (current_resolution_idx ready + 1) mod int (length (resolution_options ready))\<rparr>,
        [])"
    by (rule conjunct1)
  with opts show ?thesis
    by (simp add: ready_def)
qed

lemma times_cycle_resolution:
  assumes "resolution_options c \<noteq> []"
  shows "fst (repeated n cycle_resolution (c, h)) =
     c\<lparr>current_resolution_idx :=
          (if n = 0 then current_resolution_idx c
           else (current_resolution_idx c + int n) mod int (length (resolution_options c)))\<rparr>"
  using assms
proof (induction n arbitrary: c h)
  case 0
  show ?case by simp
next
  case (Suc n)
  let ?c = "c\<lparr>current_resolution_idx := next_idx c\<rparr>"
  have opts: "resolution_options ?c \<noteq> []"
    using Suc.prems by simp
  have "fst (repeated (Suc n) cycle_resolution (c, h)) = fst (repeated n cycle_resolution (?c, h))"
    by (simp add: cycle_resolution_eq [OF Suc.prems])
  also have "\<dots> = ?c\<lparr>current_resolution_idx :=
          (if n = 0 then current_resolution_idx ?c
           else (current_resolution_idx ?c + int n) mod int (length (resolution_options ?c)))\<rparr>"
    using opts by (rule Suc.IH)
  also have "\<dots> = c\<lparr>current_resolution_idx :=
       (current_resolution_idx c + int (Suc n)) mod int (length (resolution_options c))\<rparr>"
  proof -
    have "(int n + (1 + current_resolution_idx c) mod int (length (resolution_options c)))
        mod int (length (resolution_options c)) =
        (int n + (1 + current_resolution_idx c)) mod int (length (resolution_options c))"
      by (rule mod_add_right_eq)
    then show ?thesis
      by (simp add: next_idx_def add.commute add.left_commute)
  qed
  finally show ?case by simp
qed

lemma times_change_resolution:
  assumes "resolution_options c \<noteq> []"
  shows "fst (repeated n (change_resolution E) (c, h)) =
     c\<lparr>current_resolution_idx :=
          (if n = 0 then current_resolution_idx c
           else (current_resolution_idx c + int n) mod int (length (resolution_options c)))\<rparr>"
  using assms
proof (induction n arbitrary: c h)
  case 0
  show ?case by simp
next
  case (Suc n)
  let ?c = "c\<lparr>current_resolution_idx := next_idx c\<rparr>"
  obtain r h' where step: "change_resolution E (c, h) = (r, ?c, h')"
    using change_resolution_trace [OF Suc.prems, of E h] by blast
  have opts: "resolution_options ?c \<noteq> []"
    using Suc.prems by simp
  have "fst (repeated (Suc n) (change_resolution E) (c, h)) =
      fst (repeated n (change_resolution E) (?c, h'))"
    by (simp add: step)
  also have "\<dots> = ?c\<lparr>current_resolution_idx :=
          (if n = 0 then current_resolution_idx ?c
           else (current_resolution_idx ?c + int n) mod int (length (resolution_options ?c)))\<rparr>"
    using opts by (rule Suc.IH)
  also have "\<dots> = c\<lparr>current_resolution_idx :=
       (current_resolution_idx c + int (Suc n)) mod int (length (resolution_options c))\<rparr>"
  proof -
    have "(int n + (1 + current_resolution_idx c) mod int (length (resolution_options c)))
        mod int (length (resolution_options c)) =
        (int n + (1 + current_resolution_idx c)) mod int (length (resolution_options c))"
      by (rule mod_add_right_eq)
    then show ?thesis
      by (simp add: next_idx_def add.commute add.left_commute)
  qed
  finally show ?case by simp
qed

text \<open>
  C6. From an index in range, as many changes of resolution as there are options give
  the controller back as it was, so the same index and the same pair.
\<close>

theorem resolution_cycle_returns:
  assumes "0 \<le> current_resolution_idx c"
    and "current_resolution_idx c < int (length (resolution_options c))"
  shows "fst (repeated (length (resolution_options c)) cycle_resolution (c, h)) = c \<and>
     fst (repeated (length (resolution_options c)) (change_resolution E) (c, h)) = c \<and>
     py_index
       (resolution_options (fst (repeated (length (resolution_options c)) (change_resolution E) (c, h))))
       (current_resolution_idx
          (fst (repeated (length (resolution_options c)) (change_resolution E) (c, h)))) =
     Inr (resolution_options c ! nat (current_resolution_idx c))"
proof -
  from assms have opts: "resolution_options c \<noteq> []"
    by auto
  from assms have wrap: "(current_resolution_idx c + int (length (resolution_options c)))
      mod int (length (resolution_options c)) = current_resolution_idx c"
    by simp
  have same: "c\<lparr>current_resolution_idx := current_resolution_idx c\<rparr> = c"
    by simp
  have a: "fst (repeated (length (resolution_options c)) cycle_resolution (c, h)) = c"
    unfolding times_cycle_resolution [OF opts] wrap using opts same by simp
  have b: "fst (repeated (length (resolution_options c)) (change_resolution E) (c, h)) = c"
    unfolding times_change_resolution [OF opts] wrap using opts same by simp
  from assms have "py_index (resolution_options c) (current_resolution_idx c) =
      Inr (resolution_options c ! nat (current_resolution_idx c))"
    by (simp add: py_index_valid nat_less_iff)
  with a b show ?thesis by simp
qed

theorem resolution_cycle_returns_witness:
  "0 \<le> current_resolution_idx ready \<and>
   current_resolution_idx ready < int (length (resolution_options ready)) \<and>
   fst (repeated 4 (change_resolution camera0_dead) (ready, [])) = ready"
proof -
  have lo: "0 \<le> current_resolution_idx ready"
    and hi: "current_resolution_idx ready < int (length (resolution_options ready))"
    and n: "length (resolution_options ready) = 4"
    by (simp_all add: ready_def)
  from resolution_cycle_returns [OF lo hi, of "[]" camera0_dead]
  have "fst (repeated 4 (change_resolution camera0_dead) (ready, [])) = ready"
    unfolding n by blast
  with lo hi show ?thesis by blast
qed

lemma change_resolution_exact:
  assumes "cameras c = [a, b]" and "resolution_options c \<noteq> []"
  shows "change_resolution E (c, h) =
     (case until_fault E h
             (slot_reconfiguration a (resolution_options c ! nat (next_idx c)) @
              slot_reconfiguration b (resolution_options c ! nat (next_idx c))) of
        (Some e, h') \<Rightarrow> (Inl e, c\<lparr>current_resolution_idx := next_idx c\<rparr>, h')
      | (None, h') \<Rightarrow>
          (Inr (), c\<lparr>current_resolution_idx := next_idx c\<rparr>,
           h' @ [Print (resolution_line (resolution_options c ! nat (next_idx c)))]))"
  by (simp add: change_resolution_def cycle_resolution_eq [OF assms(2)] assms(1) enumerate_two
        bnd_def seq_def get_def ret_def call_def call_val_def print_def
        create_preview_configuration_def slot_reconfiguration_def resolution_line_def
        split: option.splits)

lemma until_fault_none:
  assumes "\<And>h ev. fault E h ev = None"
  shows "until_fault E h evs = (None, h @ evs)"
  by (induction evs arbitrary: h) (simp_all add: assms)

text \<open>
  C7. With two cameras, \<open>change_resolution\<close> makes these calls in this order, up
  to the first one that raises: stop, configuration, configure, start of the first camera,
  then the same four of the second; it prints the new resolution after them when none
  raised. So no call on the second camera comes before the first camera has been
  restarted, and with an outside that raises nothing all eight calls and the printed line
  are made.
\<close>

theorem change_resolution_slot_order:
  assumes "cameras c = [a, b]" and "resolution_options c \<noteq> []"
  shows "change_resolution E (c, h) =
       (case until_fault E h
               (slot_reconfiguration a (resolution_options c ! nat (next_idx c)) @
                slot_reconfiguration b (resolution_options c ! nat (next_idx c))) of
          (Some e, h') \<Rightarrow> (Inl e, c\<lparr>current_resolution_idx := next_idx c\<rparr>, h')
        | (None, h') \<Rightarrow>
            (Inr (), c\<lparr>current_resolution_idx := next_idx c\<rparr>,
             h' @ [Print (resolution_line (resolution_options c ! nat (next_idx c)))])) \<and>
     (\<exists>evs.
        snd (snd (change_resolution E (c, h))) = h @ evs \<and>
        prefix evs
          (slot_reconfiguration a (resolution_options c ! nat (next_idx c)) @
           slot_reconfiguration b (resolution_options c ! nat (next_idx c)) @
           [Print (resolution_line (resolution_options c ! nat (next_idx c)))])) \<and>
     ((\<forall>h' ev. fault E h' ev = None) \<longrightarrow>
        change_resolution E (c, h) =
          (Inr (), c\<lparr>current_resolution_idx := next_idx c\<rparr>,
           h @ slot_reconfiguration a (resolution_options c ! nat (next_idx c)) @
               slot_reconfiguration b (resolution_options c ! nat (next_idx c)) @
               [Print (resolution_line (resolution_options c ! nat (next_idx c)))]))"
proof -
  let ?res = "resolution_options c ! nat (next_idx c)"
  let ?calls = "slot_reconfiguration a ?res @ slot_reconfiguration b ?res"
  note exact = change_resolution_exact [OF assms, of E h]
  have order: "\<exists>evs. snd (snd (change_resolution E (c, h))) = h @ evs \<and>
      prefix evs (slot_reconfiguration a ?res @ slot_reconfiguration b ?res @
                  [Print (resolution_line ?res)])"
    using change_resolution_trace [OF assms(2), of E h]
    unfolding assms(1) enumerate_two by auto
  have "change_resolution E (c, h) =
          (Inr (), c\<lparr>current_resolution_idx := next_idx c\<rparr>,
           h @ slot_reconfiguration a ?res @ slot_reconfiguration b ?res @
               [Print (resolution_line ?res)])"
    if "\<forall>h' ev. fault E h' ev = None"
  proof -
    from that have "until_fault E h ?calls = (None, h @ ?calls)"
      by (intro until_fault_none) simp
    with exact show ?thesis by simp
  qed
  with exact order show ?thesis by blast
qed

theorem change_resolution_slot_order_witness:
  "cameras ready = [0, 1] \<and> resolution_options ready \<noteq> [] \<and>
   (\<forall>h' ev. fault quiet h' ev = None) \<and>
   change_resolution quiet (ready, []) =
     (Inr (), ready\<lparr>current_resolution_idx := 1\<rparr>,
      [Stop 0,
       CreatePreviewConfiguration 0 (1280, 720) (640, 480) ''lores'',
       Configure 0 \<lparr>main_size = (1280, 720), lores_size = (640, 480), display = ''lores''\<rparr>,
       Start 0,
       Stop 1,
       CreatePreviewConfiguration 1 (1280, 720) (640, 480) ''lores'',
       Configure 1 \<lparr>main_size = (1280, 720), lores_size = (640, 480), display = ''lores''\<rparr>,
       Start 1,
       Print ''Resolution changed to 1280x720''])"
proof -
  have cams: "cameras ready = [0, 1]" and opts: "resolution_options ready \<noteq> []"
    by (simp_all add: ready_def)
  have no_fault: "\<forall>h' ev. fault quiet h' ev = None"
    by (simp add: quiet_def)
  have idx: "next_idx ready = 1"
    by (simp add: next_idx_def ready_def)
  have res: "resolution_options ready ! nat 1 = (1280, 720)"
    by (simp add: ready_def)
  have line: "resolution_line (1280, 720) = ''Resolution changed to 1280x720''"
    by code_simp
  from change_resolution_slot_order [OF cams opts, of quiet "[]"]
  have "(\<forall>h' ev. fault quiet h' ev = None) \<longrightarrow>
    change_resolution quiet (ready, []) =
      (Inr (), ready\<lparr>current_resolution_idx := next_idx ready\<rparr>,
       [] @ slot_reconfiguration 0 (resolution_options ready ! nat (next_idx ready)) @
            slot_reconfiguration 1 (resolution_options ready ! nat (next_idx ready)) @
            [Print (resolution_line (resolution_options ready ! nat (next_idx ready)))])"
    by (elim conjE)
  then have "change_resolution quiet (ready, []) =
      (Inr (), ready\<lparr>current_resolution_idx := next_idx ready\<rparr>,
       [] @ slot_reconfiguration 0 (resolution_options ready ! nat (next_idx ready)) @
            slot_reconfiguration 1 (resolution_options ready ! nat (next_idx ready)) @
            [Print (resolution_line (resolution_options ready ! nat (next_idx ready)))])"
    by (rule mp) (simp add: quiet_def)
  then have "change_resolution quiet (ready, []) =
     (Inr (), ready\<lparr>current_resolution_idx := 1\<rparr>,
      [Stop 0,
       CreatePreviewConfiguration 0 (1280, 720) (640, 480) ''lores'',
       Configure 0 \<lparr>main_size = (1280, 720), lores_size = (640, 480), display = ''lores''\<rparr>,
       Start 0,
       Stop 1,
       CreatePreviewConfiguration 1 (1280, 720) (640, 480) ''lores'',
       Configure 1 \<lparr>main_size = (1280, 720), lores_size = (640, 480), display = ''lores''\<rparr>,
       Start 1,
       Print ''Resolution changed to 1280x720''])"
    unfolding idx res line by (simp add: slot_reconfiguration_def)
  with cams opts no_fault show ?thesis by (intro conjI)
qed

subsection \<open>Keys\<close>

text \<open>
  C8. The key \<open>p\<close> negates \<open>preview_active\<close> and changes no other field of
  the controller (active camera, exposure values, brightness values and resolution index
  stay); pressed twice, it gives the controller back as it was.
\<close>

theorem toggle_preview_twice:
  "handle_key E (ord CHR ''p'') (c, h) =
     (Inr False, c\<lparr>preview_active := \<not> preview_active c\<rparr>,
      h @ [Print (if preview_active c then ''Preview paused'' else ''Preview resumed'')]) \<and>
   fst (snd (handle_key E (ord CHR ''p'') (snd (handle_key E (ord CHR ''p'') (c, h))))) = c \<and>
   active_camera (fst (snd (handle_key E (ord CHR ''p'') (c, h)))) = active_camera c \<and>
   exposure_values (fst (snd (handle_key E (ord CHR ''p'') (c, h)))) = exposure_values c \<and>
   brightness_values (fst (snd (handle_key E (ord CHR ''p'') (c, h)))) = brightness_values c \<and>
   current_resolution_idx (fst (snd (handle_key E (ord CHR ''p'') (c, h)))) =
     current_resolution_idx c"
proof -
  have once: "handle_key E (ord CHR ''p'') (c', h') =
     (Inr False, c'\<lparr>preview_active := \<not> preview_active c'\<rparr>,
      h' @ [Print (if preview_active c' then ''Preview paused'' else ''Preview resumed'')])"
    for c' h'
    by (simp add: handle_key_def ord_def prog_defs)
  show ?thesis
    by (simp add: once)
qed

text \<open>
  C9. A key that is none of the command keys does nothing: no exception, the controller
  unchanged, no call to the outside, and the loop goes on.
\<close>

theorem unrecognized_key_ignored:
  assumes "key \<notin> set command_keys"
  shows "handle_key E key (c, h) = (Inr False, c, h)"
  using assms by (simp add: handle_key_def command_keys_def prog_defs)

theorem unrecognized_key_ignored_witness:
  "(- 1) AND 255 \<notin> set command_keys \<and>
   handle_key quiet ((- 1) AND 255) (ready, []) = (Inr False, ready, [])"
proof -
  have k: "(- 1) AND 255 \<notin> set command_keys"
    by (simp add: command_keys_def ord_def)
  from k unrecognized_key_ignored [OF k] show ?thesis
    by (rule conjI)
qed

subsection \<open>Snapshots\<close>

lemma snapshot_stamp:
  "strftime ''%Y%m%d_%H%M%S'' t =
     str_nat (tm_year t) @ pad2 (tm_mon t) @ pad2 (tm_mday t) @ ''_'' @
     pad2 (tm_hour t) @ pad2 (tm_min t) @ pad2 (tm_sec t)"
  by simp

lemma capture_image_valid:
  assumes "0 \<le> i" "nat i < length (cameras c)" "nat i < length (brightness_values c)"
  shows "capture_image E i (c, h) =
     (let path = snapshot_path c i (clock E h);
          cam = cameras c ! nat i;
          h1 = h @ [Strftime ''%Y%m%d_%H%M%S'', CaptureArray cam];
          raw = sensor E (h @ [Strftime ''%Y%m%d_%H%M%S'']) cam;
          b = brightness_values c ! nat i;
          img = (if b \<noteq> 0 then ConvertScaleAbs raw 1 b else raw)
      in case fault E (h @ [Strftime ''%Y%m%d_%H%M%S'']) (CaptureArray cam) of
           Some e \<Rightarrow> (Inl e, c, h1)
         | None \<Rightarrow>
            (case fault E h1 (Imwrite path img) of
               Some e \<Rightarrow> (Inl e, c, h1 @ [Imwrite path img])
             | None \<Rightarrow> (Inr path, c,
                 h1 @ [Imwrite path img, Print (''Image saved as '' @ path)])))"
  using assms
  by (simp add: capture_image_def capture_array_def imwrite_def time_strftime_def prog_defs
        py_index_valid snapshot_path_def Let_def del: strftime.simps
        add: snapshot_stamp split: option.splits)

lemma str_nat_digit: "n < 10 \<Longrightarrow> str_nat n = [digit_char n]"
  by (simp add: str_nat.simps)

text \<open>
  C4. On slot 0 or 1, when neither the capture nor the write raises, \<open>capture_image\<close>
  asks the codec to write the frame the camera delivered, unchanged when the slot's
  brightness is 0 and passed through \<open>convertScaleAbs\<close> with that brightness
  otherwise, with nothing drawn on it, under the name
  \<open>directory/camera<i+1>_<YYYYmmdd_HHMMSS>.jpg\<close> of the local time at the call, and
  returns that name. The controller is not changed.
\<close>

theorem capture_image_saves:
  assumes "two_slots c" and "i = 0 \<or> i = 1"
    and "fault E (h @ [Strftime ''%Y%m%d_%H%M%S''])
           (CaptureArray (cameras c ! nat i)) = None"
    and "fault E (h @ [Strftime ''%Y%m%d_%H%M%S'', CaptureArray (cameras c ! nat i)])
           (Imwrite (snapshot_path c i (clock E h))
              (if brightness_values c ! nat i = 0
               then sensor E (h @ [Strftime ''%Y%m%d_%H%M%S'']) (cameras c ! nat i)
               else ConvertScaleAbs
                      (sensor E (h @ [Strftime ''%Y%m%d_%H%M%S'']) (cameras c ! nat i)) 1
                      (brightness_values c ! nat i))) = None"
  shows "capture_image E i (c, h) =
       (Inr (snapshot_path c i (clock E h)), c,
        h @ [Strftime ''%Y%m%d_%H%M%S'',
             CaptureArray (cameras c ! nat i),
             Imwrite (snapshot_path c i (clock E h))
               (if brightness_values c ! nat i = 0
                then sensor E (h @ [Strftime ''%Y%m%d_%H%M%S'']) (cameras c ! nat i)
                else ConvertScaleAbs
                       (sensor E (h @ [Strftime ''%Y%m%d_%H%M%S'']) (cameras c ! nat i)) 1
                       (brightness_values c ! nat i)),
             Print (''Image saved as '' @ snapshot_path c i (clock E h))]) \<and>
     snapshot_path c i (clock E h) =
       save_directory c @ ''/camera'' @ (if i = 0 then ''1'' else ''2'') @ ''_'' @
       strftime ''%Y%m%d_%H%M%S'' (clock E h) @ ''.jpg'' \<and>
     overlaid (if brightness_values c ! nat i = 0
               then sensor E (h @ [Strftime ''%Y%m%d_%H%M%S'']) (cameras c ! nat i)
               else ConvertScaleAbs
                      (sensor E (h @ [Strftime ''%Y%m%d_%H%M%S'']) (cameras c ! nat i)) 1
                      (brightness_values c ! nat i)) =
       overlaid (sensor E (h @ [Strftime ''%Y%m%d_%H%M%S'']) (cameras c ! nat i))"
proof -
  from assms(1,2)
  have i: "0 \<le> i" "nat i < length (cameras c)" "nat i < length (brightness_values c)"
    by (auto simp: two_slots_def)
  have label: "str_int (i + 1) = (if i = 0 then ''1'' else ''2'')"
    using assms(2) by (rule disjE) (simp_all add: str_int_def str_nat_digit digit_char_def)
  have "snapshot_path c i (clock E h) =
       save_directory c @ ''/camera'' @ (if i = 0 then ''1'' else ''2'') @ ''_'' @
       strftime ''%Y%m%d_%H%M%S'' (clock E h) @ ''.jpg''"
    unfolding snapshot_path_def label snapshot_stamp by simp
  moreover have "capture_image E i (c, h) =
       (Inr (snapshot_path c i (clock E h)), c,
        h @ [Strftime ''%Y%m%d_%H%M%S'',
             CaptureArray (cameras c ! nat i),
             Imwrite (snapshot_path c i (clock E h))
               (if brightness_values c ! nat i = 0
                then sensor E (h @ [Strftime ''%Y%m%d_%H%M%S'']) (cameras c ! nat i)
                else ConvertScaleAbs
                       (sensor E (h @ [Strftime ''%Y%m%d_%H%M%S'']) (cameras c ! nat i)) 1
                       (brightness_values c ! nat i)),
             Print (''Image saved as '' @ snapshot_path c i (clock E h))])"
  proof (cases "brightness_values c ! nat i = 0")
    case True
    with assms(3,4) show ?thesis
      unfolding capture_image_valid [OF i] by (simp add: Let_def)
  next
    case False
    with assms(3,4) show ?thesis
      unfolding capture_image_valid [OF i] by (simp add: Let_def)
  qed
  ultimately show ?thesis by simp
qed

theorem capture_image_saves_witness:
  "two_slots (ready\<lparr>brightness_values := [0, 15]\<rparr>) \<and>
   capture_image quiet 1 (ready\<lparr>brightness_values := [0, 15]\<rparr>, []) =
     (Inr ''camera_captures/camera2_20240309_140507.jpg'', ready\<lparr>brightness_values := [0, 15]\<rparr>,
      [Strftime ''%Y%m%d_%H%M%S'', CaptureArray 1,
       Imwrite ''camera_captures/camera2_20240309_140507.jpg''
         (ConvertScaleAbs (Sensor 2 3 [1, 1]) 1 15),
       Print ''Image saved as camera_captures/camera2_20240309_140507.jpg''])"
proof -
  let ?c = "ready\<lparr>brightness_values := [0, 15]\<rparr>"
  have slots: "two_slots ?c"
    by (simp add: two_slots_def ready_def)
  have i: "(1::int) = 0 \<or> (1::int) = 1"
    by simp
  have path: "snapshot_path ?c 1 (clock quiet []) =
      ''camera_captures/camera2_20240309_140507.jpg''"
    by code_simp
  have cap: "fault quiet ([] @ [Strftime ''%Y%m%d_%H%M%S''])
           (CaptureArray (cameras ?c ! nat 1)) = None"
    by (simp add: quiet_def)
  have wr: "fault quiet ([] @ [Strftime ''%Y%m%d_%H%M%S'', CaptureArray (cameras ?c ! nat 1)])
           (Imwrite (snapshot_path ?c 1 (clock quiet []))
              (if brightness_values ?c ! nat 1 = 0
               then sensor quiet ([] @ [Strftime ''%Y%m%d_%H%M%S'']) (cameras ?c ! nat 1)
               else ConvertScaleAbs
                      (sensor quiet ([] @ [Strftime ''%Y%m%d_%H%M%S'']) (cameras ?c ! nat 1)) 1
                      (brightness_values ?c ! nat 1))) = None"
    by (simp add: quiet_def)
  have "capture_image quiet 1 (?c, []) =
     (Inr ''camera_captures/camera2_20240309_140507.jpg'', ?c,
      [Strftime ''%Y%m%d_%H%M%S'', CaptureArray 1,
       Imwrite ''camera_captures/camera2_20240309_140507.jpg''
         (ConvertScaleAbs (Sensor 2 3 [1, 1]) 1 15),
       Print ''Image saved as camera_captures/camera2_20240309_140507.jpg''])"
    using capture_image_saves [OF slots i cap wr, THEN conjunct1]
    unfolding path by (simp add: ready_def quiet_def)
  with slots show ?thesis by (rule conjI)
qed





subsection \<open>The main loop\<close>

lemma add_info_overlay_valid:
  assumes "0 \<le> i" "nat i < length (exposure_values c)" "nat i < length (brightness_values c)"
  shows "\<exists>f'. add_info_overlay E f i (c, h) = (Inr f', c, h @ [Strftime ''%Y-%m-%d %H:%M:%S''])"
  using assms
  by (simp add: add_info_overlay_def time_strftime_def prog_defs py_index_valid Let_def
        split: prod.splits del: strftime.simps)

lemma capture_frames_Cons:
  "capture_frames E ((i, camera) # rest) frames s =
     (case capture_array E camera s of
        (Inl e, s1) \<Rightarrow> (Inl e, s1)
      | (Inr raw, s1) \<Rightarrow>
          (case item brightness_values i s1 of
             (Inl e, s2) \<Rightarrow> (Inl e, s2)
           | (Inr b, s2) \<Rightarrow>
               (case add_info_overlay E (if b \<noteq> 0 then ConvertScaleAbs raw 1 b else raw) i s2 of
                  (Inl e, s3) \<Rightarrow> (Inl e, s3)
                | (Inr f, s3) \<Rightarrow> capture_frames E rest (frames @ [f]) s3)))"
proof -
  obtain r1 s1 where a: "capture_array E camera s = (r1, s1)"
    by (cases "capture_array E camera s") auto
  obtain r2 s2 where b: "item brightness_values i s1 = (r2, s2)"
    by (cases "item brightness_values i s1") auto
  have s2: "s2 = s1"
    using b by (cases s1) (simp add: item_def)
  show ?thesis
  proof (cases r1)
    case (Inl e)
    then show ?thesis
      by (simp only: capture_frames.simps bnd_def a prod.case sum.case)
  next
    case raw: (Inr raw)
    show ?thesis
    proof (cases r2)
      case (Inl e)
      then show ?thesis
        by (simp only: capture_frames.simps bnd_def a b raw prod.case sum.case)
    next
      case (Inr bv)
      show ?thesis
      proof (cases "bv = 0")
        case True
        then show ?thesis
          by (simp only: capture_frames.simps bnd_def ret_def a b raw Inr prod.case sum.case
                simp_thms if_False if_True)
      next
        case False
        then show ?thesis
          using b
          by (simp only: capture_frames.simps bnd_def ret_def a b raw Inr s2 prod.case sum.case
                simp_thms if_False if_True)
      qed
    qed
  qed
qed

lemma capture_frames_step:
  assumes "fault E h (CaptureArray cam) = None"
    and "0 \<le> i" "nat i < length (exposure_values c)" "nat i < length (brightness_values c)"
  shows "\<exists>f'. capture_frames E ((i, cam) # rest) frames (c, h) =
     capture_frames E rest (frames @ [f'])
       (c, h @ [CaptureArray cam, Strftime ''%Y-%m-%d %H:%M:%S''])"
proof -
  let ?h = "h @ [CaptureArray cam]"
  let ?raw = "sensor E h cam"
  let ?b = "brightness_values c ! nat i"
  let ?frame = "if ?b \<noteq> 0 then ConvertScaleAbs ?raw 1 ?b else ?raw"
  have cap: "capture_array E cam (c, h) = (Inr ?raw, c, ?h)"
    using assms(1) by (simp add: capture_array_def call_val_def)
  have br: "item brightness_values i (c, ?h) = (Inr ?b, c, ?h)"
    using assms(2,4) by (simp add: item_def py_index_valid)
  from add_info_overlay_valid [OF assms(2,3,4), of E ?frame ?h]
  obtain f' where ov: "add_info_overlay E ?frame i (c, ?h) =
      (Inr f', c, ?h @ [Strftime ''%Y-%m-%d %H:%M:%S''])"
    by (elim exE)
  have "capture_frames E ((i, cam) # rest) frames (c, h) =
     capture_frames E rest (frames @ [f']) (c, ?h @ [Strftime ''%Y-%m-%d %H:%M:%S''])"
    by (simp only: capture_frames_Cons cap br ov prod.case sum.case)
  then have "capture_frames E ((i, cam) # rest) frames (c, h) =
     capture_frames E rest (frames @ [f'])
       (c, h @ [CaptureArray cam, Strftime ''%Y-%m-%d %H:%M:%S''])"
    by (simp only: append_assoc append_Cons append_Nil)
  then show ?thesis
    by (rule exI [of _ f'])
qed

lemma run_loop_raises:
  assumes "loop_body E s = (Inl e, s')"
  shows "run_loop E (Suc n) s = Some (Inl e, s')"
  using assms by simp

lemma loop_body_capture_raises:
  assumes "capture_frames E (enumerate (cameras c)) [] (c, h) = (Inl e, s')"
  shows "loop_body E (c, h) = (Inl e, s')"
  using assms by (simp add: loop_body_def bnd_def get_def)

lemma first_capture_raises:
  assumes "cameras c = a # rest" and "fault E h (CaptureArray a) = Some e"
  shows "capture_frames E (enumerate (cameras c)) [] (c, h) = (Inl e, c, h @ [CaptureArray a])"
proof -
  have "enumerate (a # rest) = (0, a) # zip (map int [1..<Suc (length rest)]) rest"
    by (simp add: enumerate_def upt_rec)
  moreover have "capture_array E a (c, h) = (Inl e, c, h @ [CaptureArray a])"
    using assms(2) by (simp add: capture_array_def call_val_def)
  ultimately show ?thesis
    by (simp only: assms(1) capture_frames_Cons prod.case sum.case)
qed

lemma second_capture_raises:
  assumes "cameras c = [a, b]" and "exposure_values c \<noteq> []" and "brightness_values c \<noteq> []"
    and "fault E h (CaptureArray a) = None"
    and "fault E (h @ [CaptureArray a, Strftime ''%Y-%m-%d %H:%M:%S'']) (CaptureArray b) = Some e"
  shows "capture_frames E (enumerate (cameras c)) [] (c, h) =
     (Inl e, c, h @ [CaptureArray a, Strftime ''%Y-%m-%d %H:%M:%S'', CaptureArray b])"
proof -
  let ?h = "h @ [CaptureArray a, Strftime ''%Y-%m-%d %H:%M:%S'']"
  from assms(2,3) have i: "(0::int) \<le> 0" "nat 0 < length (exposure_values c)"
      "nat 0 < length (brightness_values c)"
    by simp_all
  from capture_frames_step [OF assms(4) i, of "[(1, b)]" "[]"]
  obtain f' where step: "capture_frames E ((0, a) # [(1, b)]) [] (c, h) =
     capture_frames E [(1, b)] ([] @ [f']) (c, ?h)"
    by (elim exE)
  have "capture_array E b (c, ?h) = (Inl e, c, ?h @ [CaptureArray b])"
    using assms(5) by (simp add: capture_array_def call_val_def)
  then have "capture_frames E [(1, b)] ([] @ [f']) (c, ?h) = (Inl e, c, ?h @ [CaptureArray b])"
    by (simp only: capture_frames_Cons prod.case sum.case)
  with step have "capture_frames E [(0, a), (1, b)] [] (c, h) = (Inl e, c, ?h @ [CaptureArray b])"
    by (simp only:)
  then show ?thesis
    by (simp only: assms(1) enumerate_two append_assoc append_Cons append_Nil)
qed

text \<open>
  C2 does not hold as stated: with the first camera dead, \<open>run\<close> ends in the first
  iteration with the camera's exception; the second camera is not read, nothing is
  printed after the banner, no clean-up is done.
\<close>

theorem capture_failure_ends_run:
  "run camera0_dead 3 (ready, []) =
     Some (Inl capture_failed, ready, map Print banner @ [CaptureArray 0])"
proof -
  have start: "for_each banner print (ready, []) = (Inr (), ready, map Print banner)"
    by (simp add: banner_def seq_def bnd_def print_def ret_def)
  have cams: "cameras ready = 0 # [1]"
    by (simp add: ready_def)
  have dead: "fault camera0_dead (map Print banner) (CaptureArray 0) = Some capture_failed"
    by (simp add: camera0_dead_def quiet_def)
  have "loop_body camera0_dead (ready, map Print banner) =
      (Inl capture_failed, ready, map Print banner @ [CaptureArray 0])"
    using first_capture_raises [OF cams dead] by (rule loop_body_capture_raises)
  then have "run_loop camera0_dead (Suc (Suc (Suc 0))) (ready, map Print banner) =
      Some (Inl capture_failed, ready, map Print banner @ [CaptureArray 0])"
    by (rule run_loop_raises)
  then have three: "run_loop camera0_dead 3 (ready, map Print banner) =
      Some (Inl capture_failed, ready, map Print banner @ [CaptureArray 0])"
    by (simp only: numeral_3_eq_3)
  show ?thesis
    unfolding run_def start by (simp only: prod.case sum.case three option.case)
qed

lemma banner_printed: "for_each banner print (c, h) = (Inr (), c, h @ map Print banner)"
  by (simp add: banner_def seq_def bnd_def print_def ret_def)

lemma run_loop_after:
  assumes "iterations E k s = Some s1"
  shows "run_loop E (k + m) s = run_loop E m s1"
  using assms
proof (induction k arbitrary: s)
  case 0
  then show ?case by simp
next
  case (Suc k)
  obtain r s' where body: "loop_body E s = (r, s')"
    by (cases "loop_body E s") auto
  with Suc.prems have r: "r = Inr False" and rest: "iterations E k s' = Some s1"
    by (auto split: sum.splits bool.splits)
  from rest have "run_loop E (k + m) s' = run_loop E m s1"
    by (rule Suc.IH)
  with body r show ?case by simp
qed

lemma run_raises:
  assumes "run_loop E m (c, h @ map Print banner) = Some (Inl e, s')"
  shows "run E m (c, h) = Some (Inl e, s')"
  using assms by (simp add: run_def banner_printed)

text \<open>
  C2, as the program has it. In an iteration of the main loop a capture that raises, of
  the first camera or of the second, is not caught: the iteration ends at the failed
  call (no later capture, no display, no key, no printed line, the controller as it
  was), and the exception ends the loop and \<open>run\<close>, in whichever iteration it
  happens: \<open>run\<close> returns it with the failed call as the last call made, so
  without the clean-up.
\<close>

theorem capture_failure_propagates:
  assumes "cameras c = [a, b]" and "exposure_values c \<noteq> []" and "brightness_values c \<noteq> []"
    and "fault E h (CaptureArray a) = Some e \<and> h' = h @ [CaptureArray a] \<or>
         fault E h (CaptureArray a) = None \<and>
         fault E (h @ [CaptureArray a, Strftime ''%Y-%m-%d %H:%M:%S'']) (CaptureArray b) = Some e \<and>
         h' = h @ [CaptureArray a, Strftime ''%Y-%m-%d %H:%M:%S'', CaptureArray b]"
  shows "loop_body E (c, h) = (Inl e, c, h') \<and>
     run_loop E (Suc n) (c, h) = Some (Inl e, c, h') \<and>
     (\<forall>c0 h0 k. iterations E k (c0, h0 @ map Print banner) = Some (c, h) \<longrightarrow>
        run E (k + Suc n) (c0, h0) = Some (Inl e, c, h'))"
proof -
  from assms(1) have cams: "cameras c = a # [b]" by simp
  from assms(4) have "capture_frames E (enumerate (cameras c)) [] (c, h) = (Inl e, c, h')"
    using first_capture_raises [OF cams, of E h e] second_capture_raises [OF assms(1,2,3), of E h e]
    by auto
  then have body: "loop_body E (c, h) = (Inl e, c, h')"
    by (rule loop_body_capture_raises)
  then have loop: "run_loop E (Suc n) (c, h) = Some (Inl e, c, h')"
    by (rule run_loop_raises)
  have "run E (k + Suc n) (c0, h0) = Some (Inl e, c, h')"
    if "iterations E k (c0, h0 @ map Print banner) = Some (c, h)" for c0 h0 k
  proof -
    from that have "run_loop E (k + Suc n) (c0, h0 @ map Print banner) =
        run_loop E (Suc n) (c, h)"
      by (rule run_loop_after)
    with loop have "run_loop E (k + Suc n) (c0, h0 @ map Print banner) = Some (Inl e, c, h')"
      by (simp only:)
    then show ?thesis
      by (rule run_raises)
  qed
  with body loop show ?thesis by blast
qed

theorem capture_failure_propagates_witness:
  "cameras ready = [0, 1] \<and> exposure_values ready \<noteq> [] \<and> brightness_values ready \<noteq> [] \<and>
   loop_body camera0_dead (ready, map Print banner) =
     (Inl capture_failed, ready, map Print banner @ [CaptureArray 0]) \<and>
   run camera0_dead (Suc 4) (ready, []) =
     Some (Inl capture_failed, ready, map Print banner @ [CaptureArray 0])"
proof -
  have cams: "cameras ready = [0, 1]" and ex: "exposure_values ready \<noteq> []"
    and br: "brightness_values ready \<noteq> []"
    by (simp_all add: ready_def)
  have dead: "fault camera0_dead (map Print banner) (CaptureArray 0) = Some capture_failed \<and>
      map Print banner @ [CaptureArray 0] = map Print banner @ [CaptureArray 0] \<or>
      fault camera0_dead (map Print banner) (CaptureArray 0) = None \<and>
      fault camera0_dead (map Print banner @ [CaptureArray 0, Strftime ''%Y-%m-%d %H:%M:%S''])
        (CaptureArray 1) = Some capture_failed \<and>
      map Print banner @ [CaptureArray 0] =
        map Print banner @ [CaptureArray 0, Strftime ''%Y-%m-%d %H:%M:%S'', CaptureArray 1]"
    by (simp add: camera0_dead_def quiet_def)
  note fact = capture_failure_propagates [OF cams ex br dead, of 4]
  have start: "iterations camera0_dead 0 (ready, [] @ map Print banner) =
      Some (ready, map Print banner)"
    by simp
  from fact have "loop_body camera0_dead (ready, map Print banner) =
     (Inl capture_failed, ready, map Print banner @ [CaptureArray 0])"
    by (rule conjunct1)
  moreover from fact start have "run camera0_dead (0 + Suc 4) (ready, []) =
     Some (Inl capture_failed, ready, map Print banner @ [CaptureArray 0])"
    by blast
  then have "run camera0_dead (Suc 4) (ready, []) =
     Some (Inl capture_failed, ready, map Print banner @ [CaptureArray 0])"
    by (simp only: add_0)
  ultimately show ?thesis
    using cams ex br by blast
qed

end
